theory Spec2Isabelle
  imports Main
begin

section \<open>The team achievement notification component\<close>

text \<open>
  The component \<^verbatim>\<open>TeamAchievementNotification\<close> is a React function component. Its three
  \<^verbatim>\<open>useState\<close> cells are a record; one render sees one value of that record, and every
  function the render creates (\<^verbatim>\<open>handleClose\<close>, \<^verbatim>\<open>showNextNotification\<close>) closes over
  that value. Everything outside the cells that the component touches (the backend
  requests in flight, the timers, the confetti calls, the live-feed channel) is a field
  of the record \<open>world\<close>, and every function of the component is a function from
  world to world. An \<^verbatim>\<open>await\<close> splits a function in two: the part before it, and the part
  that runs once the promise has resolved.
\<close>

subsection \<open>Data\<close>

text \<open>
  \<^verbatim>\<open>interface TeamAchievement\<close>. The field \<^verbatim>\<open>metadata: any\<close> is kept as opaque text.
  Timestamps are ISO strings in the source and are never compared by the component; the
  backend orders by them, so they are instants (integers) here.
\<close>

record TeamAchievement =
  ach_id :: string
  ach_team_id :: string
  achievement_type :: string
  title :: string
  description :: string
  achieved_at :: int
  metadata :: string
  celebrated :: bool

text \<open>\<^verbatim>\<open>interface TeamAchievementNotification\<close>; \<open>id'\<close> is the field \<^verbatim>\<open>id\<close>.\<close>

record TeamAchievementNotification =
  id' :: string
  team_id :: string
  user_id :: string
  achievement_id :: string
  is_read :: bool
  created_at :: int
  team_achievements :: TeamAchievement

text \<open>The three \<^verbatim>\<open>useState\<close> cells, as one render sees them.\<close>

record component =
  notifications :: "TeamAchievementNotification list"
  showNotification :: bool
  currentNotification :: "TeamAchievementNotification option"

text \<open>
  What \<^verbatim>\<open>await supabase.from(...).select(...)\<close> resolves to: \<^verbatim>\<open>{ data, error }\<close>, either
  of which may be null.
\<close>

record load_response =
  data :: "TeamAchievementNotification list option"
  error :: "string option"

text \<open>What \<^verbatim>\<open>await supabase.rpc(...)\<close> resolves to; \<^verbatim>\<open>handleClose\<close> discards it.\<close>

datatype rpc_response = RpcOk | RpcFailed string

text \<open>
  A timer made by \<^verbatim>\<open>setInterval\<close> in \<^verbatim>\<open>triggerConfetti\<close>: the \<^verbatim>\<open>animationEnd\<close> its
  callback closes over, and whether \<^verbatim>\<open>clearInterval\<close> has been called on it. The handle
  is the position in the list \<open>intervals\<close>.
\<close>

record interval =
  animationEnd :: int
  cleared :: bool

text \<open>
  A channel opened by \<^verbatim>\<open>subscribeToNotifications\<close>: the user id of its filter
  \<^verbatim>\<open>user_id=eq.${userId}\<close>, and whether it is still subscribed. The handle is the
  position in the list \<open>subscriptions\<close>.
\<close>

record subscription =
  filter_user_id :: string
  subscribed :: bool

text \<open>
  A cleanup function that an effect may return to React. The only one the source
  builds is \<^verbatim>\<open>() => { subscription.unsubscribe(); }\<close>.
\<close>

datatype cleanup = Unsubscribe nat

text \<open>
  The component and its surroundings.
  \<^item> \<open>cells\<close>: the committed state, which the latest render has seen.
  \<^item> \<open>deps_changed\<close>: \<^verbatim>\<open>setNotifications\<close> has stored a new array since the effect with
    dependencies \<^verbatim>\<open>[notifications]\<close> last ran.
  \<^item> \<open>pending_loads\<close>: queries of \<^verbatim>\<open>loadUnreadNotifications\<close> that have not resolved.
  \<^item> \<open>rpc_calls\<close>: the \<^verbatim>\<open>p_notification_id\<close> of every \<^verbatim>\<open>mark_team_notification_read\<close>
    call issued, oldest first.
  \<^item> \<open>pending_closes\<close>: calls of \<^verbatim>\<open>handleClose\<close> suspended at their \<^verbatim>\<open>await\<close>, each with
    the render it closes over.
  \<^item> \<open>timeouts\<close>: callbacks given to \<^verbatim>\<open>setTimeout(..., 500)\<close> that have not run, oldest
    first, each with the render whose \<^verbatim>\<open>showNextNotification\<close> it calls.
  \<^item> \<open>confetti_calls\<close>: the \<^verbatim>\<open>timeLeft\<close> of every call of \<^verbatim>\<open>confetti(...)\<close>; its
    \<^verbatim>\<open>particleCount\<close> is \<^verbatim>\<open>50 * (timeLeft / duration)\<close>, its origin is random.
  \<^item> \<open>clock\<close>: \<^verbatim>\<open>Date.now()\<close>, in milliseconds.
  \<^item> \<open>cleanups\<close>: the cleanup functions that effects have returned to React.
  \<^item> \<open>console\<close>: the lines written to the console.
  \<^item> \<open>presented\<close>: a history variable, not in the source: the notification of every
    transition to the shown state, oldest first.
\<close>

record world =
  userId :: string
  cells :: component
  deps_changed :: bool
  pending_loads :: nat
  rpc_calls :: "string list"
  pending_closes :: "component list"
  timeouts :: "component list"
  intervals :: "interval list"
  confetti_calls :: "int list"
  clock :: int
  subscriptions :: "subscription list"
  cleanups :: "cleanup list"
  console :: "string list"
  presented :: "TeamAchievementNotification list"

subsection \<open>State setters\<close>

definition setShowNotification :: "bool \<Rightarrow> world \<Rightarrow> world" where
  "setShowNotification b w = w\<lparr>cells := (cells w)\<lparr>showNotification := b\<rparr>\<rparr>"

definition setCurrentNotification ::
  "TeamAchievementNotification option \<Rightarrow> world \<Rightarrow> world" where
  "setCurrentNotification n w = w\<lparr>cells := (cells w)\<lparr>currentNotification := n\<rparr>\<rparr>"

text \<open>
  \<^verbatim>\<open>setNotifications\<close> takes an updater, which React applies to the latest committed
  array. Both call sites store a fresh array (the response's \<^verbatim>\<open>data\<close>, or the result of
  \<^verbatim>\<open>filter\<close>), so the dependency \<^verbatim>\<open>[notifications]\<close> changes at every call.
\<close>

definition setNotifications ::
  "(TeamAchievementNotification list \<Rightarrow> TeamAchievementNotification list) \<Rightarrow> world \<Rightarrow> world" where
  "setNotifications f w =
     w\<lparr>cells := (cells w)\<lparr>notifications := f (notifications (cells w))\<rparr>,
       deps_changed := True\<rparr>"

subsection \<open>The functions of the component\<close>

text \<open>
  \<^verbatim>\<open>triggerConfetti\<close>: \<^verbatim>\<open>animationEnd = Date.now() + duration\<close> with \<^verbatim>\<open>duration = 3000\<close>,
  then \<^verbatim>\<open>setInterval(..., 250)\<close>.
\<close>

definition duration :: int where
  "duration = 3000"

definition triggerConfetti :: "world \<Rightarrow> world" where
  "triggerConfetti w =
     w\<lparr>intervals := intervals w @ [\<lparr>animationEnd = clock w + duration, cleared = False\<rparr>]\<rparr>"

text \<open>
  One run of the interval's callback, for the handle \<open>h\<close>: a cleared interval does not
  run; \<^verbatim>\<open>timeLeft <= 0\<close> clears the interval; otherwise \<^verbatim>\<open>confetti\<close> is called twice.
\<close>

definition interval_callback :: "nat \<Rightarrow> world \<Rightarrow> world" where
  "interval_callback h w =
     (if h < length (intervals w) \<and> \<not> cleared (intervals w ! h) then
        (let timeLeft = animationEnd (intervals w ! h) - clock w in
         if timeLeft \<le> 0
         then w\<lparr>intervals := (intervals w)[h := (intervals w ! h)\<lparr>cleared := True\<rparr>]\<rparr>
         else w\<lparr>confetti_calls := confetti_calls w @ [timeLeft, timeLeft]\<rparr>)
      else w)"

text \<open>
  \<^verbatim>\<open>showNextNotification\<close> of the render \<open>c\<close>: the guard and \<^verbatim>\<open>notifications[0]\<close> read the
  render's values, the setters write the committed state.
\<close>

definition showNextNotification :: "component \<Rightarrow> world \<Rightarrow> world" where
  "showNextNotification c w =
     (case notifications c of
        [] \<Rightarrow> w
      | n # _ \<Rightarrow>
          if \<not> showNotification c then
            triggerConfetti
              (setShowNotification True
                (setCurrentNotification (Some n) (w\<lparr>presented := presented w @ [n]\<rparr>)))
          else w)"

text \<open>
  The effect with dependencies \<^verbatim>\<open>[notifications]\<close>, run by React after a render in which
  the array has changed; it sees that render.
\<close>

definition notifications_effect :: "world \<Rightarrow> world" where
  "notifications_effect w =
     (let c = cells w in
      if length (notifications c) > 0 \<and> \<not> showNotification c
      then showNextNotification c w else w)"

definition flush_effects :: "world \<Rightarrow> world" where
  "flush_effects w =
     (if deps_changed w then notifications_effect (w\<lparr>deps_changed := False\<rparr>) else w)"

text \<open>
  \<^verbatim>\<open>loadUnreadNotifications\<close>, up to its \<^verbatim>\<open>await\<close>: the query is sent. The query itself
  (\<^verbatim>\<open>.eq('user_id', userId).eq('is_read', false).order('created_at', { ascending: true })\<close>)
  is \<open>unread_query\<close> below.
\<close>

definition loadUnreadNotifications_call :: "world \<Rightarrow> world" where
  "loadUnreadNotifications_call w = w\<lparr>pending_loads := Suc (pending_loads w)\<rparr>"

text \<open>
  \<^verbatim>\<open>loadUnreadNotifications\<close>, after its \<^verbatim>\<open>await\<close>: \<^verbatim>\<open>if (!error && data) setNotifications(data)\<close>.
  An array is truthy in JavaScript, also the empty one; \<^verbatim>\<open>null\<close> is not.
\<close>

definition loadUnreadNotifications_resume :: "load_response \<Rightarrow> world \<Rightarrow> world" where
  "loadUnreadNotifications_resume r w =
     (case (error r, data r) of
        (None, Some d) \<Rightarrow> setNotifications (\<lambda>_. d) w
      | _ \<Rightarrow> w)"

text \<open>
  The rows the query asks the backend for, from a table \<open>rows\<close>: the unread rows of the
  user, ordered by \<^verbatim>\<open>created_at\<close> ascending. The backend is not part of the repository;
  rows of equal \<^verbatim>\<open>created_at\<close> are kept in table order here.
\<close>

definition unread_query ::
  "string \<Rightarrow> TeamAchievementNotification list \<Rightarrow> TeamAchievementNotification list" where
  "unread_query uid rows =
     sort_key created_at (filter (\<lambda>n. user_id n = uid \<and> \<not> is_read n) rows)"

text \<open>
  \<^verbatim>\<open>subscribeToNotifications\<close>: opens the channel and returns the function that
  unsubscribes it.
\<close>

definition subscribeToNotifications :: "world \<Rightarrow> world \<times> cleanup" where
  "subscribeToNotifications w =
     (w\<lparr>subscriptions :=
          subscriptions w @ [\<lparr>filter_user_id = userId w, subscribed = True\<rparr>]\<rparr>,
      Unsubscribe (length (subscriptions w)))"

text \<open>
  The effect with dependencies \<^verbatim>\<open>[userId]\<close>. Its body is two statements and no
  \<^verbatim>\<open>return\<close>: the function that \<^verbatim>\<open>subscribeToNotifications\<close> returns is dropped, and
  the effect hands React no cleanup.
\<close>

definition userId_effect :: "world \<Rightarrow> world \<times> cleanup option" where
  "userId_effect w =
     (let w1 = loadUnreadNotifications_call w;
          (w2, _) = subscribeToNotifications w1
      in (w2, None))"

text \<open>
  The callback of the channel, \<^verbatim>\<open>(payload) => { loadUnreadNotifications(); }\<close>, run once
  for every subscribed channel whose filter matches the inserted row's \<^verbatim>\<open>user_id\<close>.
\<close>

definition insert_event :: "string \<Rightarrow> world \<Rightarrow> world" where
  "insert_event uid w =
     fold (\<lambda>s v. if subscribed s \<and> filter_user_id s = uid
                  then loadUnreadNotifications_call v else v)
          (subscriptions w) w"

text \<open>
  \<^verbatim>\<open>handleClose\<close> of the render \<open>c\<close>, up to its \<^verbatim>\<open>await\<close>: inside
  \<^verbatim>\<open>if (currentNotification)\<close>, the remote call is issued and the function suspends.
\<close>

definition handleClose_call :: "component \<Rightarrow> world \<Rightarrow> world" where
  "handleClose_call c w =
     (case currentNotification c of
        None \<Rightarrow> w
      | Some n \<Rightarrow> w\<lparr>rpc_calls := rpc_calls w @ [id' n],
                     pending_closes := pending_closes w @ [c]\<rparr>)"

text \<open>
  \<^verbatim>\<open>handleClose\<close> of the render \<open>c\<close>, after its \<^verbatim>\<open>await\<close>. The response \<open>r\<close> is not
  bound to a name in the source. The timer's callback calls the
  \<^verbatim>\<open>showNextNotification\<close> of the render \<open>c\<close>.
\<close>

definition handleClose_resume :: "component \<Rightarrow> rpc_response \<Rightarrow> world \<Rightarrow> world" where
  "handleClose_resume c r w =
     (case currentNotification c of
        None \<Rightarrow> w
      | Some n \<Rightarrow>
          (let w1 = setShowNotification False w;
               w2 = setCurrentNotification None w1;
               w3 = setNotifications (filter (\<lambda>m. id' m \<noteq> id' n)) w2
           in w3\<lparr>timeouts := timeouts w3 @ [c]\<rparr>))"

text \<open>
  What the component renders: \<^verbatim>\<open>if (!showNotification || !currentNotification) return null\<close>,
  otherwise the dialog of \<^verbatim>\<open>currentNotification\<close>, which holds the two buttons whose
  \<^verbatim>\<open>onClick\<close> is \<^verbatim>\<open>handleClose\<close>.
\<close>

definition render :: "component \<Rightarrow> TeamAchievementNotification option" where
  "render c =
     (if \<not> showNotification c \<or> currentNotification c = None then None
      else currentNotification c)"

subsection \<open>Mounting, unmounting and events\<close>

text \<open>
  React registers the cleanup an effect returns, and runs the registered cleanups when
  the component unmounts.
\<close>

definition register :: "cleanup option \<Rightarrow> world \<Rightarrow> world" where
  "register k w = (case k of None \<Rightarrow> w | Some f \<Rightarrow> w\<lparr>cleanups := cleanups w @ [f]\<rparr>)"

fun run_cleanup :: "cleanup \<Rightarrow> world \<Rightarrow> world" where
  "run_cleanup (Unsubscribe h) w =
     (if h < length (subscriptions w)
      then w\<lparr>subscriptions := (subscriptions w)[h := (subscriptions w ! h)\<lparr>subscribed := False\<rparr>]\<rparr>
      else w)"

definition unmount :: "world \<Rightarrow> world" where
  "unmount w = fold run_cleanup (cleanups w) (w\<lparr>cleanups := []\<rparr>)"

text \<open>
  The first render, with the initial values of the three cells, followed by both effects.
\<close>

definition initial :: "string \<Rightarrow> int \<Rightarrow> world" where
  "initial uid now =
     \<lparr>userId = uid,
      cells = \<lparr>notifications = [], showNotification = False, currentNotification = None\<rparr>,
      deps_changed = False, pending_loads = 0, rpc_calls = [], pending_closes = [],
      timeouts = [], intervals = [], confetti_calls = [], clock = now,
      subscriptions = [], cleanups = [], console = [], presented = []\<rparr>"

definition mount :: "string \<Rightarrow> int \<Rightarrow> world" where
  "mount uid now =
     (let (w, k) = userId_effect (initial uid now)
      in notifications_effect (register k w))"

text \<open>
  What can happen to a mounted component. A response arrives only for a request that
  is pending; a click needs a button, so a rendered dialog, and calls the
  \<^verbatim>\<open>handleClose\<close> of the latest render; timers of equal delay run oldest first. No timing
  is imposed: a timer may run at any moment after it was set.
\<close>

datatype event =
    LoadResolved load_response
  | InsertEvent string
  | Click
  | RpcResolved nat rpc_response
  | TimeoutFired
  | IntervalFired nat
  | TimePasses nat

fun handle :: "event \<Rightarrow> world \<Rightarrow> world" where
  "handle (LoadResolved r) w =
     (if pending_loads w = 0 then w
      else loadUnreadNotifications_resume r (w\<lparr>pending_loads := pending_loads w - 1\<rparr>))"
| "handle (InsertEvent uid) w = insert_event uid w"
| "handle Click w =
     (case render (cells w) of None \<Rightarrow> w | Some _ \<Rightarrow> handleClose_call (cells w) w)"
| "handle (RpcResolved i r) w =
     (if i < length (pending_closes w)
      then handleClose_resume (pending_closes w ! i) r
             (w\<lparr>pending_closes := take i (pending_closes w) @ drop (Suc i) (pending_closes w)\<rparr>)
      else w)"
| "handle TimeoutFired w =
     (case timeouts w of [] \<Rightarrow> w | c # cs \<Rightarrow> showNextNotification c (w\<lparr>timeouts := cs\<rparr>))"
| "handle (IntervalFired h) w = interval_callback h w"
| "handle (TimePasses d) w = w\<lparr>clock := clock w + int d\<rparr>"

definition step :: "event \<Rightarrow> world \<Rightarrow> world" where
  "step e w = flush_effects (handle e w)"

definition run :: "event list \<Rightarrow> world \<Rightarrow> world" where
  "run es w = fold step es w"

text \<open>
  What React does with a state update of a component that has unmounted (it drops the
  update) is not modelled: after \<open>unmount\<close>, the theorems below speak of requests,
  timers and channels only, or of states in which the update changes nothing.
\<close>

subsection \<open>What is shown, and the schedule of a user who closes every dialog\<close>

text \<open>The notifications whose dialog is on screen.\<close>

definition shown :: "world \<Rightarrow> TeamAchievementNotification set" where
  "shown w = {n. render (cells w) = Some n}"

text \<open>A successful response carrying the rows \<open>xs\<close>.\<close>

definition loaded :: "TeamAchievementNotification list \<Rightarrow> event" where
  "loaded xs = LoadResolved \<lparr>data = Some xs, error = None\<rparr>"

text \<open>
  One dismissal: the user clicks a button of the dialog, the remote call succeeds, and
  the timer that \<^verbatim>\<open>handleClose\<close> set runs.
\<close>

definition dismissal :: "event list" where
  "dismissal = [Click, RpcResolved 0 RpcOk, TimeoutFired]"

definition dismissals :: "nat \<Rightarrow> event list" where
  "dismissals k = concat (replicate k dismissal)"

text \<open>
  Schedules in which the queue is only ever changed by the first load and by
  dismissals, and no dialog is clicked again while a \<^verbatim>\<open>handleClose\<close> is suspended at its
  \<^verbatim>\<open>await\<close>: every later response to a load is a failure, and a click finds no suspended
  \<^verbatim>\<open>handleClose\<close>. Inserts on the live feed, completions of the remote call with either
  outcome, timers and the passing of time are unrestricted.
\<close>

fun admissible :: "event \<Rightarrow> world \<Rightarrow> bool" where
  "admissible (LoadResolved r) w = (error r \<noteq> None \<or> data r = None)"
| "admissible Click w = (pending_closes w = [])"
| "admissible _ w = True"

fun orderly :: "event list \<Rightarrow> world \<Rightarrow> bool" where
  "orderly [] w = True"
| "orderly (e # es) w = (admissible e w \<and> orderly es (step e w))"

subsection \<open>Invariants\<close>

text \<open>A render in which the dialog of \<open>n\<close> is on screen, over the queue \<open>q\<close>.\<close>

definition showing ::
  "TeamAchievementNotification list \<Rightarrow> TeamAchievementNotification \<Rightarrow> component" where
  "showing q n = \<lparr>notifications = q, showNotification = True, currentNotification = Some n\<rparr>"

text \<open>
  What holds of the component after every event: the two cells of the dialog agree;
  every effect has run; every render that a pending timer or a suspended
  \<^verbatim>\<open>handleClose\<close> closes over had its dialog on screen; every presentation started one
  interval; React holds no cleanup.
\<close>

definition consistent :: "world \<Rightarrow> bool" where
  "consistent w \<longleftrightarrow>
     (showNotification (cells w) \<longleftrightarrow> currentNotification (cells w) \<noteq> None) \<and>
     \<not> deps_changed w \<and>
     (\<forall>c \<in> set (timeouts w). showNotification c) \<and>
     (\<forall>c \<in> set (pending_closes w). showNotification c \<and> currentNotification c \<noteq> None) \<and>
     length (intervals w) = length (presented w) \<and>
     cleanups w = []"

text \<open>
  The component after the rows \<open>xs\<close> were loaded and \<open>k\<close> dialogs were dismissed: the
  queue is what is left of \<open>xs\<close>, and its head, if any, is on screen.
\<close>

definition after_dismissals ::
  "TeamAchievementNotification list \<Rightarrow> nat \<Rightarrow> world \<Rightarrow> bool" where
  "after_dismissals xs k w \<longleftrightarrow>
     notifications (cells w) = drop k xs \<and>
     showNotification (cells w) = (k < length xs) \<and>
     currentNotification (cells w) = (if k < length xs then Some (xs ! k) else None) \<and>
     presented w = take (Suc k) xs \<and>
     rpc_calls w = map id' (take k xs) \<and>
     pending_closes w = [] \<and> timeouts w = [] \<and> \<not> deps_changed w"

text \<open>
  The component at any moment of an orderly schedule after the rows \<open>xs\<close> were loaded,
  \<open>k\<close> dismissals having completed: as \<open>after_dismissals\<close>, but timers may be pending
  and one \<^verbatim>\<open>handleClose\<close>, of the dialog on screen, may be suspended.
\<close>

definition in_progress ::
  "TeamAchievementNotification list \<Rightarrow> nat \<Rightarrow> world \<Rightarrow> bool" where
  "in_progress xs k w \<longleftrightarrow>
     k \<le> length xs \<and>
     notifications (cells w) = drop k xs \<and>
     showNotification (cells w) = (k < length xs) \<and>
     currentNotification (cells w) = (if k < length xs then Some (xs ! k) else None) \<and>
     presented w = take (Suc k) xs \<and>
     \<not> deps_changed w \<and>
     (\<forall>c \<in> set (timeouts w). showNotification c) \<and>
     (pending_closes w = [] \<or>
      k < length xs \<and>
      (\<exists>c. pending_closes w = [c] \<and> showNotification c \<and>
           currentNotification c = Some (xs ! k)))"

subsection \<open>Example data\<close>

definition example_achievement :: TeamAchievement where
  "example_achievement =
     \<lparr>ach_id = ''g'', ach_team_id = ''t'', achievement_type = ''team_streak'',
      title = ''Streak'', description = ''Seven days'', achieved_at = 5,
      metadata = [], celebrated = False\<rparr>"

definition example_notification :: "string \<Rightarrow> int \<Rightarrow> TeamAchievementNotification" where
  "example_notification i t =
     \<lparr>id' = i, team_id = ''t'', user_id = ''u'', achievement_id = ''g'', is_read = False,
      created_at = t, team_achievements = example_achievement\<rparr>"

definition notification_A :: TeamAchievementNotification where
  "notification_A = example_notification ''A'' 10"

definition notification_B :: TeamAchievementNotification where
  "notification_B = example_notification ''B'' 20"

definition notification_C :: TeamAchievementNotification where
  "notification_C = example_notification ''C'' 30"

text \<open>A table in which the newer row comes first and one row is already read.\<close>

definition example_rows :: "TeamAchievementNotification list" where
  "example_rows = [notification_B, notification_A, notification_C\<lparr>is_read := True\<rparr>]"

text \<open>The user \<^verbatim>\<open>u\<close> has two unread notifications; the dialog of the first is on screen.\<close>

definition showing_A :: world where
  "showing_A = run [loaded [notification_A, notification_B]] (mount ''u'' 0)"

text \<open>The same, after the user closed the first dialog; the timer has not run yet.\<close>

definition dismissed_A :: world where
  "dismissed_A =
     run [loaded [notification_A, notification_B], Click, RpcResolved 0 RpcOk] (mount ''u'' 0)"

text \<open>A failed response.\<close>

definition failed_response :: load_response where
  "failed_response = \<lparr>data = None, error = Some ''fetch failed''\<rparr>"

text \<open>
  The user closes both dialogs, once each, while time passes, an interval runs and an
  insert arrives on the live feed; both remote calls succeed.
\<close>

definition example_schedule :: "event list" where
  "example_schedule =
     [Click, TimePasses 250, IntervalFired 0, RpcResolved 0 RpcOk, InsertEvent ''u'',
      TimeoutFired, Click, RpcResolved 0 RpcOk]"

text \<open>
  The user clicks the first dialog twice before the remote call of the first click has
  completed, and later closes the second dialog; every remote call succeeds.
\<close>

definition double_click :: "event list" where
  "double_click =
     [loaded [notification_A, notification_B], Click, Click,
      RpcResolved 0 RpcOk, RpcResolved 0 RpcOk, Click, RpcResolved 0 RpcOk]"

text \<open>
  While the first dialog is on screen an insert arrives and the component reloads; the
  user closes the dialog and the remote call succeeds; then the response to the reload
  arrives, computed by the backend before the notification was marked as read.
\<close>

definition stale_reload :: "event list" where
  "stale_reload =
     [loaded [notification_A], InsertEvent ''u'', Click, RpcResolved 0 RpcOk,
      loaded [notification_A, notification_C]]"

text \<open>
  While the first dialog is on screen an insert arrives on the live feed, so that a
  reload is pending.
\<close>

definition reloading_A :: world where
  "reloading_A = run [loaded [notification_A, notification_B], InsertEvent ''u''] (mount ''u'' 0)"

text \<open>
  The user has clicked the first dialog twice and the remote call of the first click
  has completed: the second dialog is on screen, and the \<^verbatim>\<open>handleClose\<close> of the second
  click, which closed over the first notification, is still suspended.
\<close>

definition double_clicked :: world where
  "double_clicked =
     run [loaded [notification_A, notification_B], Click, Click, RpcResolved 0 RpcOk]
       (mount ''u'' 0)"

section \<open>Lemmas\<close>

lemmas setter_defs = setShowNotification_def setCurrentNotification_def setNotifications_def

lemmas component_defs =
  setter_defs triggerConfetti_def showNextNotification_def notifications_effect_def
  flush_effects_def loadUnreadNotifications_call_def loadUnreadNotifications_resume_def
  handleClose_call_def handleClose_resume_def interval_callback_def

lemmas mount_defs =
  mount_def initial_def userId_effect_def subscribeToNotifications_def register_def

lemmas example_defs =
  notification_A_def notification_B_def notification_C_def example_notification_def
  example_rows_def

subsection \<open>Running a schedule\<close>

lemma run_append: "run (es @ fs) w = run fs (run es w)"
  by (simp add: run_def)

lemma dismissals_Suc: "dismissals (Suc k) = dismissals k @ dismissal"
  unfolding dismissals_def by (induction k) simp_all

subsection \<open>The live-feed callback only sends queries\<close>

lemma insert_event_fields:
  "cells (insert_event u w) = cells w"
  "deps_changed (insert_event u w) = deps_changed w"
  "timeouts (insert_event u w) = timeouts w"
  "pending_closes (insert_event u w) = pending_closes w"
  "intervals (insert_event u w) = intervals w"
  "presented (insert_event u w) = presented w"
  "cleanups (insert_event u w) = cleanups w"
proof -
  have "cells (fold (\<lambda>s v. if subscribed s \<and> filter_user_id s = u
                  then loadUnreadNotifications_call v else v) ss v) = cells v \<and>
     deps_changed (fold (\<lambda>s v. if subscribed s \<and> filter_user_id s = u
                  then loadUnreadNotifications_call v else v) ss v) = deps_changed v \<and>
     timeouts (fold (\<lambda>s v. if subscribed s \<and> filter_user_id s = u
                  then loadUnreadNotifications_call v else v) ss v) = timeouts v \<and>
     pending_closes (fold (\<lambda>s v. if subscribed s \<and> filter_user_id s = u
                  then loadUnreadNotifications_call v else v) ss v) = pending_closes v \<and>
     intervals (fold (\<lambda>s v. if subscribed s \<and> filter_user_id s = u
                  then loadUnreadNotifications_call v else v) ss v) = intervals v \<and>
     presented (fold (\<lambda>s v. if subscribed s \<and> filter_user_id s = u
                  then loadUnreadNotifications_call v else v) ss v) = presented v \<and>
     cleanups (fold (\<lambda>s v. if subscribed s \<and> filter_user_id s = u
                  then loadUnreadNotifications_call v else v) ss v) = cleanups v" for ss v
    by (induction ss arbitrary: v) (simp_all add: loadUnreadNotifications_call_def)
  from this [of "subscriptions w" w]
  show "cells (insert_event u w) = cells w"
    "deps_changed (insert_event u w) = deps_changed w"
    "timeouts (insert_event u w) = timeouts w"
    "pending_closes (insert_event u w) = pending_closes w"
    "intervals (insert_event u w) = intervals w"
    "presented (insert_event u w) = presented w"
    "cleanups (insert_event u w) = cleanups w"
    by (simp_all add: insert_event_def)
qed

subsection \<open>The invariant holds after every event\<close>

lemma consistent_mount: "consistent (mount uid now)"
  by (simp add: consistent_def mount_defs component_defs)

lemma consistent_step:
  assumes c: "consistent w"
  shows "consistent (step e w)"
proof (cases e)
  case (LoadResolved r)
  then show ?thesis using c
    by (auto simp: consistent_def step_def component_defs split: option.splits list.splits)
next
  case (InsertEvent u)
  then show ?thesis using c
    by (simp add: step_def flush_effects_def consistent_def insert_event_fields)
next
  case Click
  then show ?thesis using c
    by (auto simp: consistent_def step_def component_defs render_def
        split: option.splits list.splits)
next
  case (RpcResolved i r)
  then show ?thesis using c
    by (auto simp: consistent_def step_def component_defs split: option.splits list.splits
        dest: in_set_takeD in_set_dropD)
next
  case TimeoutFired
  then show ?thesis using c
    by (auto simp: consistent_def step_def component_defs split: option.splits list.splits)
next
  case (IntervalFired h)
  then show ?thesis using c
    by (auto simp: consistent_def step_def component_defs Let_def
        split: option.splits list.splits)
next
  case (TimePasses d)
  then show ?thesis using c
    by (simp add: consistent_def step_def flush_effects_def)
qed

lemma consistent_run: "consistent w \<Longrightarrow> consistent (run es w)"
  unfolding run_def by (induction es arbitrary: w) (simp_all add: consistent_step)

lemma consistent_reachable: "consistent (run es (mount uid now))"
  by (intro consistent_run consistent_mount)

lemma reachable_unmount: "unmount (run es (mount uid now)) = run es (mount uid now)"
proof -
  have "cleanups (run es (mount uid now)) = []"
    using consistent_reachable [of es uid now] by (simp add: consistent_def)
  then show ?thesis by (simp add: unmount_def)
qed

lemma flush_effects_notifications:
  "notifications (cells (flush_effects w)) = notifications (cells w)"
  by (simp add: component_defs Let_def split: list.splits)

subsection \<open>Steps from a state with the dialog on screen, and from one without\<close>

lemma showing_step:
  assumes c: "consistent w" and s: "showNotification (cells w)"
    and e: "\<forall>i r. e \<noteq> RpcResolved i r"
  shows "presented (step e w) = presented w \<and>
         length (intervals (step e w)) = length (intervals w) \<and>
         currentNotification (cells (step e w)) = currentNotification (cells w) \<and>
         showNotification (cells (step e w))"
proof (cases e)
  case (LoadResolved r)
  then show ?thesis using s
    by (simp add: step_def component_defs split: option.splits list.splits)
next
  case (InsertEvent u)
  then show ?thesis using c s
    by (simp add: step_def flush_effects_def insert_event_fields consistent_def)
next
  case Click
  then show ?thesis using c s
    by (simp add: step_def component_defs consistent_def split: option.splits list.splits)
next
  case (RpcResolved i r)
  then show ?thesis using e by simp
next
  case TimeoutFired
  then show ?thesis using c s
    by (simp add: step_def component_defs consistent_def split: option.splits list.splits)
next
  case (IntervalFired h)
  then show ?thesis using c s
    by (simp add: step_def component_defs consistent_def Let_def
        split: option.splits list.splits)
next
  case (TimePasses d)
  then show ?thesis using c s
    by (simp add: step_def flush_effects_def consistent_def)
qed

lemma idle_step:
  assumes c: "consistent w" and s: "\<not> showNotification (cells w)"
    and s': "showNotification (cells (step e w))"
  shows "length (intervals (step e w)) = Suc (length (intervals w))"
proof (cases e)
  case (LoadResolved r)
  then show ?thesis using c s s'
    by (auto simp: step_def component_defs consistent_def Let_def
        split: option.splits list.splits if_splits)
next
  case (InsertEvent u)
  then show ?thesis using c s s'
    by (simp add: step_def flush_effects_def insert_event_fields consistent_def)
next
  case Click
  then show ?thesis using c s s'
    by (simp add: step_def component_defs render_def consistent_def
        split: option.splits list.splits)
next
  case (RpcResolved i r)
  then show ?thesis using c s s'
    by (auto simp: step_def component_defs consistent_def Let_def
        split: option.splits list.splits if_splits)
next
  case TimeoutFired
  then show ?thesis using c s s'
    by (auto simp: step_def component_defs consistent_def Let_def
        split: option.splits list.splits if_splits)
next
  case (IntervalFired h)
  then show ?thesis using c s s'
    by (auto simp: step_def component_defs consistent_def Let_def
        split: option.splits list.splits if_splits)
next
  case (TimePasses d)
  then show ?thesis using c s s'
    by (simp add: step_def flush_effects_def consistent_def)
qed

lemma timeout_fired_reachable:
  assumes c: "consistent w"
  shows "cells (step TimeoutFired w) = cells w \<and>
         presented (step TimeoutFired w) = presented w \<and>
         timeouts (step TimeoutFired w) = tl (timeouts w)"
  using c by (simp add: step_def component_defs consistent_def split: list.splits)

lemma interval_fired_cleared:
  assumes c: "consistent w" and h: "h < length (intervals w)"
  shows "cleared (intervals (step (IntervalFired h) w) ! h) =
         (cleared (intervals w ! h) \<or> animationEnd (intervals w ! h) \<le> clock w)"
  using c h
  by (auto simp: step_def flush_effects_def interval_callback_def consistent_def Let_def)

subsection \<open>One dismissal, and all of them\<close>

lemma later_ids_differ:
  assumes dist: "distinct (map id' xs)" and k: "k < length xs"
  shows "\<forall>m \<in> set (drop (Suc k) xs). id' m \<noteq> id' (xs ! k)"
proof
  fix m assume "m \<in> set (drop (Suc k) xs)"
  then obtain j where j: "j < length xs - Suc k" "m = xs ! (Suc k + j)"
    by (auto simp: in_set_conv_nth)
  from dist have "\<forall>a < length xs. \<forall>b < length xs.
      a \<noteq> b \<longrightarrow> map id' xs ! a \<noteq> map id' xs ! b"
    by (simp add: distinct_conv_nth)
  with j k have "map id' xs ! (Suc k + j) \<noteq> map id' xs ! k"
    by (metis add_Suc less_diff_conv add.commute less_add_Suc1 less_not_refl)
  with j k show "id' m \<noteq> id' (xs ! k)" by simp
qed

lemma filter_other_ids:
  "\<forall>m \<in> set rest. id' m \<noteq> id' x \<Longrightarrow> filter (\<lambda>m. id' m \<noteq> id' x) (x # rest) = rest"
  by (simp add: filter_id_conv)

lemma dismissal_round:
  assumes q: "notifications (cells w) = x # rest"
    and s: "showNotification (cells w)"
    and c: "currentNotification (cells w) = Some x"
    and p: "pending_closes w = []" and t: "timeouts w = []" and d: "\<not> deps_changed w"
    and i: "\<forall>m \<in> set rest. id' m \<noteq> id' x"
  shows "notifications (cells (run dismissal w)) = rest \<and>
         showNotification (cells (run dismissal w)) = (rest \<noteq> []) \<and>
         currentNotification (cells (run dismissal w)) =
           (case rest of [] \<Rightarrow> None | y # _ \<Rightarrow> Some y) \<and>
         presented (run dismissal w) = presented w @ take 1 rest \<and>
         rpc_calls (run dismissal w) = rpc_calls w @ [id' x] \<and>
         pending_closes (run dismissal w) = [] \<and> timeouts (run dismissal w) = [] \<and>
         \<not> deps_changed (run dismissal w)"
proof -
  define w1 where "w1 = step Click w"
  have w1: "w1 = w\<lparr>rpc_calls := rpc_calls w @ [id' x], pending_closes := [cells w]\<rparr>"
    using s c p d by (simp add: w1_def step_def render_def handleClose_call_def flush_effects_def)
  define w2 where "w2 = step (RpcResolved 0 RpcOk) w1"
  have f: "filter (\<lambda>m. id' m \<noteq> id' x) (x # rest) = rest"
    using i by (rule filter_other_ids)
  have w2: "notifications (cells w2) = rest \<and>
         showNotification (cells w2) = (rest \<noteq> []) \<and>
         currentNotification (cells w2) = (case rest of [] \<Rightarrow> None | y # _ \<Rightarrow> Some y) \<and>
         presented w2 = presented w @ take 1 rest \<and>
         rpc_calls w2 = rpc_calls w @ [id' x] \<and>
         pending_closes w2 = [] \<and> timeouts w2 = [cells w] \<and> \<not> deps_changed w2"
    using q c t f by (cases rest) (simp_all add: w2_def w1 step_def component_defs Let_def)
  have "run dismissal w = step TimeoutFired w2"
    by (simp add: dismissal_def run_def w2_def w1_def)
  moreover have "step TimeoutFired w2 = w2\<lparr>timeouts := []\<rparr>"
    using w2 s by (simp add: step_def component_defs split: list.splits)
  ultimately show ?thesis using w2 by simp
qed

lemma after_load: "after_dismissals xs 0 (run [loaded xs] (mount uid now))"
  by (cases xs)
    (simp_all add: after_dismissals_def run_def step_def loaded_def mount_defs component_defs)

lemma after_round:
  assumes a: "after_dismissals xs k w" and k: "k < length xs" and dist: "distinct (map id' xs)"
  shows "after_dismissals xs (Suc k) (run dismissal w)"
proof -
  have q: "notifications (cells w) = xs ! k # drop (Suc k) xs"
    using a k by (simp add: after_dismissals_def Cons_nth_drop_Suc)
  have i: "\<forall>m \<in> set (drop (Suc k) xs). id' m \<noteq> id' (xs ! k)"
    using dist k by (rule later_ids_differ)
  have r: "notifications (cells (run dismissal w)) = drop (Suc k) xs \<and>
         showNotification (cells (run dismissal w)) = (drop (Suc k) xs \<noteq> []) \<and>
         currentNotification (cells (run dismissal w)) =
           (case drop (Suc k) xs of [] \<Rightarrow> None | y # _ \<Rightarrow> Some y) \<and>
         presented (run dismissal w) = presented w @ take 1 (drop (Suc k) xs) \<and>
         rpc_calls (run dismissal w) = rpc_calls w @ [id' (xs ! k)] \<and>
         pending_closes (run dismissal w) = [] \<and> timeouts (run dismissal w) = [] \<and>
         \<not> deps_changed (run dismissal w)"
    using a k by (intro dismissal_round [OF q _ _ _ _ _ i]) (simp_all add: after_dismissals_def)
  have hd: "(case drop (Suc k) xs of [] \<Rightarrow> None | y # _ \<Rightarrow> Some y) =
        (if Suc k < length xs then Some (xs ! Suc k) else None)"
    by (cases "Suc k < length xs") (simp_all add: Cons_nth_drop_Suc [symmetric])
  have pr: "take (Suc k) xs @ take 1 (drop (Suc k) xs) = take (Suc (Suc k)) xs"
    by (cases "Suc k < length xs")
      (simp_all add: take_Suc_conv_app_nth Cons_nth_drop_Suc [symmetric])
  have rc: "map id' (take k xs) @ [id' (xs ! k)] = map id' (take (Suc k) xs)"
    using k by (simp add: take_Suc_conv_app_nth)
  show ?thesis
    using r a hd pr rc unfolding after_dismissals_def by (simp add: not_le)
qed

lemma after_all:
  "distinct (map id' xs) \<Longrightarrow> k \<le> length xs \<Longrightarrow>
     after_dismissals xs k (run (loaded xs # dismissals k) (mount uid now))"
proof (induction k)
  case 0
  then show ?case using after_load [of xs uid now] by (simp add: dismissals_def)
next
  case (Suc k)
  then have "after_dismissals xs k (run (loaded xs # dismissals k) (mount uid now))"
    by simp
  then have "after_dismissals xs (Suc k)
      (run dismissal (run (loaded xs # dismissals k) (mount uid now)))"
    using Suc.prems by (intro after_round) simp_all
  then show ?case
    by (simp add: dismissals_Suc run_append [symmetric])
qed

lemma count_list_distinct: "distinct xs \<Longrightarrow> n \<in> set xs \<Longrightarrow> count_list xs n = 1"
  by (induction xs) (auto simp: count_list_0_iff)

subsection \<open>The query\<close>

lemma unread_query_distinct:
  "distinct (map f rows) \<Longrightarrow> distinct (map f (unread_query uid rows))"
  by (auto simp: unread_query_def distinct_map intro: inj_on_subset)

lemma unread_query_strict:
  "distinct (map created_at rows) \<Longrightarrow>
     sorted_wrt (<) (map created_at (unread_query uid rows))"
  by (simp add: strict_sorted_iff unread_query_distinct) (simp add: unread_query_def)

subsection \<open>The examples, evaluated\<close>

lemma unread_query_example: "unread_query ''u'' example_rows = [notification_A, notification_B]"
  by (simp add: unread_query_def example_defs)

lemma showing_A_world:
  "cells showing_A = showing [notification_A, notification_B] notification_A \<and>
   presented showing_A = [notification_A] \<and>
   intervals showing_A = [\<lparr>animationEnd = 3000, cleared = False\<rparr>]"
  by (simp add: showing_A_def run_def step_def loaded_def mount_defs component_defs
      showing_def duration_def)

lemma dismissed_A_world:
  "timeouts dismissed_A = [showing [notification_A, notification_B] notification_A] \<and>
   intervals dismissed_A =
     [\<lparr>animationEnd = 3000, cleared = False\<rparr>, \<lparr>animationEnd = 3000, cleared = False\<rparr>] \<and>
   cells dismissed_A = showing [notification_B] notification_B \<and>
   clock dismissed_A = 0 \<and> confetti_calls dismissed_A = [] \<and> cleanups dismissed_A = [] \<and>
   deps_changed dismissed_A = False"
  by (simp add: dismissed_A_def run_def step_def loaded_def mount_defs component_defs
      render_def showing_def duration_def example_defs)

lemma double_click_world:
  "presented (run double_click (mount ''u'' 0)) =
     [notification_A, notification_B, notification_B] \<and>
   notifications (cells (run double_click (mount ''u'' 0))) = [] \<and>
   rpc_calls (run double_click (mount ''u'' 0)) = [''A'', ''A'', ''B'']"
  by (simp add: double_click_def run_def step_def loaded_def mount_defs component_defs
      render_def example_defs)

lemma stale_reload_world:
  "presented (run stale_reload (mount ''u'' 0)) = [notification_A, notification_A] \<and>
   rpc_calls (run stale_reload (mount ''u'' 0)) = [''A''] \<and>
   render (cells (run stale_reload (mount ''u'' 0))) = Some notification_A"
  by (simp add: stale_reload_def run_def step_def loaded_def insert_event_def mount_defs
      component_defs render_def example_defs)

lemma example_schedule_world:
  "orderly example_schedule (run [loaded [notification_A, notification_B]] (mount ''u'' 0)) \<and>
   notifications (cells (run (loaded [notification_A, notification_B] # example_schedule)
     (mount ''u'' 0))) = []"
  by (simp add: example_schedule_def run_def step_def loaded_def insert_event_def mount_defs
      component_defs render_def example_defs duration_def Let_def)

subsection \<open>Orderly schedules\<close>

lemma orderly_append: "orderly (es @ fs) w = (orderly es w \<and> orderly fs (run es w))"
  by (induction es arbitrary: w) (simp_all add: run_def)

lemma orderly_dismissals:
  assumes dist: "distinct (map id' xs)" and k: "k \<le> length xs"
  shows "orderly (dismissals k) (run [loaded xs] (mount uid now))"
  using k
proof (induction k)
  case 0
  then show ?case by (simp add: dismissals_def)
next
  case (Suc k)
  have "after_dismissals xs k (run (loaded xs # dismissals k) (mount uid now))"
    using dist Suc.prems by (intro after_all) simp_all
  then have "pending_closes (run (dismissals k) (run [loaded xs] (mount uid now))) = []"
    by (simp add: after_dismissals_def run_append [symmetric])
  then have "orderly dismissal (run (dismissals k) (run [loaded xs] (mount uid now)))"
    by (simp add: dismissal_def)
  with Suc show ?case by (simp add: dismissals_Suc orderly_append)
qed

lemma later_ids:
  assumes dist: "distinct (map id' xs)" and k: "k < length xs"
  shows "filter (\<lambda>m. id' m \<noteq> id' (xs ! k)) (drop k xs) = drop (Suc k) xs"
proof -
  have "drop k xs = xs ! k # drop (Suc k) xs"
    using k by (simp add: Cons_nth_drop_Suc)
  with later_ids_differ [OF dist k] show ?thesis by (simp add: filter_id_conv)
qed

lemma in_progress_load: "in_progress xs 0 (run [loaded xs] (mount uid now))"
  by (cases xs)
    (simp_all add: in_progress_def run_def step_def loaded_def mount_defs component_defs)

lemma in_progress_resolved:
  assumes p: "in_progress xs k w" and dist: "distinct (map id' xs)"
    and i: "i < length (pending_closes w)"
  shows "in_progress xs (Suc k) (step (RpcResolved i r) w)"
proof -
  from p i obtain c where k: "k < length xs" and c: "pending_closes w = [c]"
      "currentNotification c = Some (xs ! k)" "showNotification c"
    by (auto simp: in_progress_def)
  from c i have i0: "i = 0" by simp
  have f: "filter (\<lambda>m. id' m \<noteq> id' (xs ! k)) (drop k xs) = drop (Suc k) xs"
    using dist k by (rule later_ids)
  show ?thesis
  proof (cases "Suc k < length xs")
    case True
    then have d: "drop (Suc k) xs = xs ! Suc k # drop (Suc (Suc k)) xs"
      by (simp add: Cons_nth_drop_Suc)
    from True have "take (Suc k) xs @ [xs ! Suc k] = take (Suc (Suc k)) xs"
      by (simp add: take_Suc_conv_app_nth)
    with p k c i0 f True show ?thesis
      by (simp add: in_progress_def step_def component_defs Let_def d)
  next
    case False
    then have d: "drop (Suc k) xs = []" by simp
    from False have "take (Suc k) xs = take (Suc (Suc k)) xs" by simp
    with p k c i0 f False show ?thesis
      by (simp add: in_progress_def step_def component_defs Let_def d)
  qed
qed

lemma in_progress_step:
  assumes p: "in_progress xs k w" and dist: "distinct (map id' xs)" and a: "admissible e w"
  shows "in_progress xs k (step e w) \<or> in_progress xs (Suc k) (step e w)"
proof (cases e)
  case (LoadResolved r)
  then have "in_progress xs k (step e w)" using p a
    by (auto simp: in_progress_def step_def flush_effects_def loadUnreadNotifications_resume_def
        split: option.splits)
  then show ?thesis ..
next
  case (InsertEvent u)
  then have "in_progress xs k (step e w)" using p
    by (simp add: step_def flush_effects_def in_progress_def insert_event_fields)
  then show ?thesis ..
next
  case Click
  then have "in_progress xs k (step e w)" using p a
    by (simp add: in_progress_def step_def flush_effects_def render_def handleClose_call_def
        split: option.splits)
  then show ?thesis ..
next
  case (RpcResolved i r)
  show ?thesis
  proof (cases "i < length (pending_closes w)")
    case True
    with p dist show ?thesis unfolding RpcResolved by (intro disjI2 in_progress_resolved)
  next
    case False
    with p have "in_progress xs k (step e w)" unfolding RpcResolved
      by (simp add: in_progress_def step_def flush_effects_def)
    then show ?thesis ..
  qed
next
  case TimeoutFired
  then have "in_progress xs k (step e w)" using p
    by (auto simp: in_progress_def step_def component_defs split: list.splits)
  then show ?thesis ..
next
  case (IntervalFired h)
  then have "in_progress xs k (step e w)" using p
    by (auto simp: in_progress_def step_def flush_effects_def interval_callback_def Let_def)
  then show ?thesis ..
next
  case (TimePasses d)
  then have "in_progress xs k (step e w)" using p
    by (simp add: in_progress_def step_def flush_effects_def)
  then show ?thesis ..
qed

lemma in_progress_run:
  "in_progress xs k w \<Longrightarrow> distinct (map id' xs) \<Longrightarrow> orderly es w \<Longrightarrow>
     \<exists>j. in_progress xs j (run es w)"
proof (induction es arbitrary: k w)
  case Nil
  then show ?case by (auto simp: run_def)
next
  case (Cons e es)
  from Cons.prems have "in_progress xs k (step e w) \<or> in_progress xs (Suc k) (step e w)"
    by (intro in_progress_step) simp_all
  moreover from Cons.prems have "orderly es (step e w)" by simp
  ultimately obtain j where "in_progress xs j (run es (step e w))"
    using Cons.IH Cons.prems(2) by blast
  then show ?case by (auto simp: run_def)
qed

lemma in_progress_presented:
  assumes p: "in_progress xs k w" and dist: "distinct (map id' xs)"
  shows "distinct (presented w) \<and> presented w = take (Suc k) xs \<and>
         notifications (cells w) = drop k xs \<and>
         (notifications (cells w) = [] \<longrightarrow> presented w = xs)"
proof -
  from dist have "distinct xs" by (rule distinct_map [THEN iffD1, THEN conjunct1])
  with p show ?thesis by (auto simp: in_progress_def)
qed

subsection \<open>Every presentation takes the head of the queue\<close>

lemma presentation_selects_head:
  assumes c: "consistent w"
  shows "presented (step e w) = presented w \<or>
         (\<exists>n rest. notifications (cells (step e w)) = n # rest \<and>
            presented (step e w) = presented w @ [n] \<and>
            currentNotification (cells (step e w)) = Some n \<and>
            showNotification (cells (step e w)))"
proof (cases e)
  case (LoadResolved r)
  then show ?thesis using c
    by (auto simp: step_def component_defs consistent_def Let_def
        split: option.splits list.splits if_splits)
next
  case (InsertEvent u)
  then show ?thesis using c
    by (simp add: step_def flush_effects_def insert_event_fields consistent_def)
next
  case Click
  then show ?thesis using c
    by (simp add: step_def component_defs render_def consistent_def
        split: option.splits list.splits)
next
  case (RpcResolved i r)
  then show ?thesis using c
    by (auto simp: step_def component_defs consistent_def Let_def
        split: option.splits list.splits if_splits)
next
  case TimeoutFired
  then show ?thesis using c
    by (auto simp: step_def component_defs consistent_def Let_def
        split: option.splits list.splits if_splits)
next
  case (IntervalFired h)
  then show ?thesis using c
    by (auto simp: step_def component_defs consistent_def Let_def
        split: option.splits list.splits if_splits)
next
  case (TimePasses d)
  then show ?thesis using c
    by (simp add: step_def flush_effects_def consistent_def)
qed

subsection \<open>Steps that leave the same notification on screen\<close>

lemma resolved_current:
  assumes d: "\<not> deps_changed w" and i: "i < length (pending_closes w)"
    and m: "currentNotification (pending_closes w ! i) = Some m"
  shows "currentNotification (cells (step (RpcResolved i r) w)) =
           (case filter (\<lambda>x. id' x \<noteq> id' m) (notifications (cells w)) of
              [] \<Rightarrow> None | h # _ \<Rightarrow> Some h)"
  using d i m by (simp add: step_def component_defs Let_def split: list.splits)

lemma same_item_step:
  assumes c: "consistent w" and s: "showNotification (cells w)"
    and same: "currentNotification (cells (step e w)) = currentNotification (cells w)"
  shows "length (intervals (step e w)) = length (intervals w) \<or>
         (\<exists>i r. e = RpcResolved i r \<and> i < length (pending_closes w) \<and>
            map_option id' (currentNotification (pending_closes w ! i)) \<noteq>
              map_option id' (currentNotification (cells w)))"
proof (cases "\<exists>i r. e = RpcResolved i r")
  case False
  then have "\<forall>i r. e \<noteq> RpcResolved i r" by blast
  from showing_step [OF c s this] show ?thesis by blast
next
  case True
  then obtain i r where e: "e = RpcResolved i r" by blast
  show ?thesis
  proof (cases "i < length (pending_closes w)")
    case False
    with c have "step e w = w"
      unfolding e by (simp add: step_def flush_effects_def consistent_def)
    then show ?thesis by simp
  next
    case True
    from c s obtain n where n: "currentNotification (cells w) = Some n"
      by (auto simp: consistent_def)
    from True have "pending_closes w ! i \<in> set (pending_closes w)" by simp
    with c have "currentNotification (pending_closes w ! i) \<noteq> None"
      unfolding consistent_def by blast
    then obtain m where m: "currentNotification (pending_closes w ! i) = Some m"
      by blast
    from c have d: "\<not> deps_changed w" by (simp add: consistent_def)
    have "id' m \<noteq> id' n"
    proof
      assume eq: "id' m = id' n"
      from resolved_current [OF d True m, of r] same n e
      have "(case filter (\<lambda>x. id' x \<noteq> id' m) (notifications (cells w)) of
              [] \<Rightarrow> None | h # _ \<Rightarrow> Some h) = Some n"
        by simp
      then obtain rest where "filter (\<lambda>x. id' x \<noteq> id' m) (notifications (cells w)) = n # rest"
        by (auto split: list.splits)
      then have "n \<in> set (filter (\<lambda>x. id' x \<noteq> id' m) (notifications (cells w)))"
        by simp
      with eq show False by simp
    qed
    with e True n m show ?thesis by simp
  qed
qed

lemma reloading_A_world:
  "showNotification (cells reloading_A) \<and>
   currentNotification (cells reloading_A) = Some notification_A \<and>
   pending_loads reloading_A = 1 \<and>
   notifications (cells (step (loaded [notification_A, notification_C]) reloading_A)) =
     [notification_A, notification_C] \<and>
   currentNotification (cells (step (loaded [notification_A, notification_C]) reloading_A)) =
     Some notification_A"
  by (simp add: reloading_A_def run_def step_def loaded_def insert_event_def mount_defs
      component_defs)

lemma double_clicked_world:
  "showNotification (cells double_clicked) \<and>
   currentNotification (cells double_clicked) = Some notification_B \<and>
   length (intervals double_clicked) = 2 \<and>
   showNotification (cells (step (RpcResolved 0 RpcOk) double_clicked)) \<and>
   currentNotification (cells (step (RpcResolved 0 RpcOk) double_clicked)) = Some notification_B \<and>
   length (intervals (step (RpcResolved 0 RpcOk) double_clicked)) = 3"
  by (simp add: double_clicked_def run_def step_def loaded_def mount_defs component_defs
      render_def example_defs)

section \<open>The claims\<close>

subsection \<open>C1: every loaded notification is presented exactly once, if dismissed once\<close>

text \<open>
  Claim C1, as the code has it. The response to the load carries the unread
  notifications \<open>xs\<close>, whose ids are distinct. In every orderly schedule after it (no
  later response to a load carries data, and no dialog is clicked while a
  \<^verbatim>\<open>handleClose\<close> is suspended; remote calls may succeed or fail, timers may run at any
  moment) no notification is ever presented twice, what has been presented and what
  the queue holds are a prefix of \<open>xs\<close> and the rest of it, and once the queue is empty
  every notification of \<open>xs\<close> has been presented exactly once. The schedule of a user
  who closes each dialog in turn is orderly and empties the queue.
\<close>

theorem each_presented_once_if_dismissed_once:
  assumes "distinct (map id' xs)"
  shows "(orderly es (run [loaded xs] (mount uid now)) \<longrightarrow>
            distinct (presented (run (loaded xs # es) (mount uid now))) \<and>
            (\<exists>k. presented (run (loaded xs # es) (mount uid now)) = take (Suc k) xs \<and>
                 notifications (cells (run (loaded xs # es) (mount uid now))) = drop k xs) \<and>
            (notifications (cells (run (loaded xs # es) (mount uid now))) = [] \<longrightarrow>
               presented (run (loaded xs # es) (mount uid now)) = xs \<and>
               (\<forall>n \<in> set xs. count_list (presented (run (loaded xs # es) (mount uid now))) n = 1))) \<and>
         orderly (dismissals (length xs)) (run [loaded xs] (mount uid now)) \<and>
         notifications (cells (run (loaded xs # dismissals (length xs)) (mount uid now))) = [] \<and>
         render (cells (run (loaded xs # dismissals (length xs)) (mount uid now))) = None"
proof -
  have split: "run es (run [loaded xs] (mount uid now)) = run (loaded xs # es) (mount uid now)"
    by (simp add: run_def)
  from assms have dx: "distinct xs" by (rule distinct_map [THEN iffD1, THEN conjunct1])
  have general: "distinct (presented (run (loaded xs # es) (mount uid now))) \<and>
            (\<exists>k. presented (run (loaded xs # es) (mount uid now)) = take (Suc k) xs \<and>
                 notifications (cells (run (loaded xs # es) (mount uid now))) = drop k xs) \<and>
            (notifications (cells (run (loaded xs # es) (mount uid now))) = [] \<longrightarrow>
               presented (run (loaded xs # es) (mount uid now)) = xs \<and>
               (\<forall>n \<in> set xs. count_list (presented (run (loaded xs # es) (mount uid now))) n = 1))"
    if "orderly es (run [loaded xs] (mount uid now))"
  proof -
    from in_progress_run [OF in_progress_load assms that]
    obtain j where "in_progress xs j (run es (run [loaded xs] (mount uid now)))"
      by blast
    then have "in_progress xs j (run (loaded xs # es) (mount uid now))"
      by (simp only: split)
    from in_progress_presented [OF this assms] dx show ?thesis
      by (auto simp: count_list_distinct)
  qed
  have "after_dismissals xs (length xs) (run (loaded xs # dismissals (length xs)) (mount uid now))"
    using assms by (rule after_all) simp
  then have nominal:
    "notifications (cells (run (loaded xs # dismissals (length xs)) (mount uid now))) = [] \<and>
     render (cells (run (loaded xs # dismissals (length xs)) (mount uid now))) = None"
    by (simp add: after_dismissals_def render_def)
  from general nominal orderly_dismissals [OF assms order_refl] show ?thesis by blast
qed

theorem each_presented_once_if_dismissed_once_witness:
  "distinct (map id' [notification_A, notification_B]) \<and>
   orderly example_schedule (run [loaded [notification_A, notification_B]] (mount ''u'' 0)) \<and>
   notifications (cells (run (loaded [notification_A, notification_B] # example_schedule)
     (mount ''u'' 0))) = [] \<and>
   presented (run (loaded [notification_A, notification_B] # example_schedule) (mount ''u'' 0)) =
     [notification_A, notification_B] \<and>
   count_list (presented (run (loaded [notification_A, notification_B] # example_schedule)
     (mount ''u'' 0))) notification_B = 1"
proof -
  have h: "distinct (map id' [notification_A, notification_B])"
    by (simp add: example_defs)
  have m: "notification_B \<in> set [notification_A, notification_B]" by simp
  from h m example_schedule_world
    each_presented_once_if_dismissed_once [OF h, of example_schedule "''u''" 0]
  show ?thesis by blast
qed

text \<open>
  The claim as written assumes successful remote calls and nothing else. When the user
  clicks the first dialog twice before the first remote call has completed, the second
  completion hides the dialog of the second notification and stores a new array, so
  the effect presents the second notification again: it has been presented twice when
  the queue is empty.
\<close>

theorem double_click_presents_twice_counterexample:
  "notifications (cells (run double_click (mount ''u'' 0))) = [] \<and>
   count_list (presented (run double_click (mount ''u'' 0))) notification_B = 2"
  using double_click_world by (simp add: example_defs)

subsection \<open>C2: at most one notification is shown\<close>

text \<open>
  Claim C2. After every sequence of events (responses to loads, live-feed inserts,
  clicks, completions of the remote call, timers, the passing of time), at most one
  notification has its dialog on screen, and the two cells that decide it agree: the
  dialog is shown exactly when there is a current notification.
\<close>

theorem at_most_one_shown:
  "finite (shown (run es (mount uid now))) \<and>
   card (shown (run es (mount uid now))) \<le> 1 \<and>
   showNotification (cells (run es (mount uid now))) =
     (currentNotification (cells (run es (mount uid now))) \<noteq> None)"
proof -
  have "shown w = (case render (cells w) of None \<Rightarrow> {} | Some n \<Rightarrow> {n})" for w
    by (auto simp: shown_def split: option.splits)
  with consistent_reachable [of es uid now] show ?thesis
    by (simp add: consistent_def split: option.splits)
qed

theorem at_most_one_shown_witness:
  "card (shown (run [loaded [notification_A, notification_B]] (mount ''u'' 0))) \<le> 1 \<and>
   render (cells (run [loaded [notification_A, notification_B]] (mount ''u'' 0))) =
     Some notification_A"
proof -
  have "render (cells (run [loaded [notification_A, notification_B]] (mount ''u'' 0))) =
      Some notification_A"
    using showing_A_world by (simp add: showing_A_def render_def showing_def)
  with at_most_one_shown [of "[loaded [notification_A, notification_B]]" "''u''" 0]
  show ?thesis by blast
qed

subsection \<open>C3: notifications are shown in the order of their creation\<close>

text \<open>
  Claim C3. The response to the load carries what the query asks for: the unread rows
  of the user, by ascending \<^verbatim>\<open>created_at\<close>. With distinct ids and distinct timestamps in
  the table, after \<open>k\<close> dismissals the dialog on screen is that of the \<open>k\<close>-th row of the
  response, which is the head of the queue and older than every other row of the
  queue; and the notifications presented so far are the first rows of the response, in
  strictly ascending order of \<^verbatim>\<open>created_at\<close>. Moreover, after every sequence of events
  whatsoever, an event that presents a notification presents the head of the queue as
  it is after the event.
\<close>

theorem presented_in_created_at_order:
  assumes "distinct (map id' rows)" and "distinct (map created_at rows)"
    and "k < length (unread_query uid rows)"
  shows "render (cells (run (loaded (unread_query uid rows) # dismissals k) (mount uid now))) =
           Some (unread_query uid rows ! k) \<and>
         notifications (cells (run (loaded (unread_query uid rows) # dismissals k) (mount uid now))) =
           unread_query uid rows ! k # drop (Suc k) (unread_query uid rows) \<and>
         (\<forall>m \<in> set (drop (Suc k) (unread_query uid rows)).
            created_at (unread_query uid rows ! k) < created_at m) \<and>
         presented (run (loaded (unread_query uid rows) # dismissals k) (mount uid now)) =
           take (Suc k) (unread_query uid rows) \<and>
         sorted_wrt (<) (map created_at
           (presented (run (loaded (unread_query uid rows) # dismissals k) (mount uid now)))) \<and>
         (presented (step e (run es (mount uid now))) = presented (run es (mount uid now)) \<or>
          (\<exists>n rest. notifications (cells (step e (run es (mount uid now)))) = n # rest \<and>
             presented (step e (run es (mount uid now))) =
               presented (run es (mount uid now)) @ [n] \<and>
             currentNotification (cells (step e (run es (mount uid now)))) = Some n \<and>
             showNotification (cells (step e (run es (mount uid now))))))"
proof -
  define xs where "xs = unread_query uid rows"
  define w where "w = run (loaded xs # dismissals k) (mount uid now)"
  have k: "k < length xs" using assms(3) by (simp add: xs_def)
  have "distinct (map id' xs)"
    unfolding xs_def using assms(1) by (rule unread_query_distinct)
  then have a: "after_dismissals xs k w"
    unfolding w_def using k by (intro after_all) simp_all
  have s: "sorted_wrt (<) (map created_at xs)"
    unfolding xs_def using assms(2) by (rule unread_query_strict)
  have "sorted_wrt (<) (map created_at (xs ! k # drop (Suc k) xs))"
    using s k by (simp add: Cons_nth_drop_Suc sorted_wrt_drop flip: drop_map)
  then have later: "\<forall>m \<in> set (drop (Suc k) xs). created_at (xs ! k) < created_at m"
    by simp
  have "sorted_wrt (<) (map created_at (take (Suc k) xs))"
    using s by (simp only: take_map [symmetric] sorted_wrt_take)
  with a k later have "render (cells w) = Some (xs ! k) \<and>
         notifications (cells w) = xs ! k # drop (Suc k) xs \<and>
         (\<forall>m \<in> set (drop (Suc k) xs). created_at (xs ! k) < created_at m) \<and>
         presented w = take (Suc k) xs \<and>
         sorted_wrt (<) (map created_at (presented w))"
    by (simp add: after_dismissals_def render_def Cons_nth_drop_Suc)
  with presentation_selects_head [OF consistent_reachable, of e es uid now]
  show ?thesis unfolding xs_def w_def by blast
qed

theorem presented_in_created_at_order_witness:
  "distinct (map id' example_rows) \<and> distinct (map created_at example_rows) \<and>
   1 < length (unread_query ''u'' example_rows) \<and>
   unread_query ''u'' example_rows = [notification_A, notification_B] \<and>
   render (cells (run (loaded (unread_query ''u'' example_rows) # dismissals 1) (mount ''u'' 0))) =
     Some notification_B \<and>
   presented (run (loaded (unread_query ''u'' example_rows) # dismissals 1) (mount ''u'' 0)) =
     [notification_A, notification_B]"
proof -
  have h1: "distinct (map id' example_rows)" by (simp add: example_defs)
  have h2: "distinct (map created_at example_rows)" by (simp add: example_defs)
  have h3: "1 < length (unread_query ''u'' example_rows)"
    by (simp add: unread_query_example)
  have e1: "unread_query ''u'' example_rows ! 1 = notification_B"
    by (simp add: unread_query_example)
  have e2: "take (Suc 1) (unread_query ''u'' example_rows) = [notification_A, notification_B]"
    by (simp add: unread_query_example)
  from presented_in_created_at_order [OF h1 h2 h3, of 0 Click "[]"] h1 h2 h3 e1 e2
    unread_query_example
  show ?thesis by metis
qed

subsection \<open>C4: acknowledging twice is acknowledging once, for the queue\<close>

text \<open>
  Claim C4. When \<^verbatim>\<open>handleClose\<close> completes twice for the same notification id (two
  calls that closed over a render showing it), each followed by the effects that React
  runs, the queue after the second completion is the queue after the first, and no
  notification of that id is in it: the second completion puts nothing back.
\<close>

theorem acknowledge_twice_same_queue:
  "currentNotification c1 = Some n \<Longrightarrow> currentNotification c2 = Some m \<Longrightarrow> id' m = id' n \<Longrightarrow>
     notifications (cells (flush_effects (handleClose_resume c2 r2
         (flush_effects (handleClose_resume c1 r1 w))))) =
       notifications (cells (flush_effects (handleClose_resume c1 r1 w))) \<and>
     id' n \<notin> id' ` set (notifications (cells (flush_effects (handleClose_resume c2 r2
         (flush_effects (handleClose_resume c1 r1 w))))))"
  by (auto simp: flush_effects_notifications handleClose_resume_def setter_defs)

theorem acknowledge_twice_same_queue_witness:
  "currentNotification (cells showing_A) = Some notification_A \<and>
   notifications (cells (flush_effects (handleClose_resume (cells showing_A) RpcOk
       (flush_effects (handleClose_resume (cells showing_A) RpcOk showing_A))))) =
     notifications (cells (flush_effects (handleClose_resume (cells showing_A) RpcOk showing_A))) \<and>
   notifications (cells (flush_effects (handleClose_resume (cells showing_A) RpcOk showing_A))) =
     [notification_B]"
proof -
  have h: "currentNotification (cells showing_A) = Some notification_A"
    using showing_A_world by (simp add: showing_def)
  have "notifications (cells (flush_effects (handleClose_resume (cells showing_A) RpcOk showing_A))) =
      [notification_B]"
    using showing_A_world
    by (simp add: flush_effects_notifications handleClose_resume_def setter_defs showing_def
        example_defs)
  with h acknowledge_twice_same_queue [OF h h refl, of RpcOk RpcOk showing_A]
  show ?thesis by blast
qed

subsection \<open>C5: the local removal does not depend on the remote outcome\<close>

text \<open>
  Claim C5. When \<^verbatim>\<open>handleClose\<close> of a render showing \<open>n\<close> resumes after its
  \<^verbatim>\<open>await\<close>, whatever the remote call resolved to, the dialog is hidden, there is no
  current notification, the queue is the old queue without the notifications of the id
  of \<open>n\<close>, and the whole result is the one a successful call gives.
\<close>

theorem handleClose_resume_any_outcome:
  "currentNotification c = Some n \<Longrightarrow>
     showNotification (cells (handleClose_resume c r w)) = False \<and>
     currentNotification (cells (handleClose_resume c r w)) = None \<and>
     notifications (cells (handleClose_resume c r w)) =
       filter (\<lambda>m. id' m \<noteq> id' n) (notifications (cells w)) \<and>
     id' n \<notin> id' ` set (notifications (cells (handleClose_resume c r w))) \<and>
     handleClose_resume c r w = handleClose_resume c RpcOk w"
  by (auto simp: handleClose_resume_def setter_defs)

theorem handleClose_resume_any_outcome_witness:
  "currentNotification (cells showing_A) = Some notification_A \<and>
   notifications (cells (handleClose_resume (cells showing_A) (RpcFailed ''network'') showing_A)) =
     [notification_B] \<and>
   handleClose_resume (cells showing_A) (RpcFailed ''network'') showing_A =
     handleClose_resume (cells showing_A) RpcOk showing_A"
proof -
  have h: "currentNotification (cells showing_A) = Some notification_A"
    using showing_A_world by (simp add: showing_def)
  have "filter (\<lambda>m. id' m \<noteq> id' notification_A) (notifications (cells showing_A)) =
      [notification_B]"
    using showing_A_world by (simp add: showing_def example_defs)
  with h handleClose_resume_any_outcome [OF h, of "RpcFailed ''network''" showing_A]
  show ?thesis by metis
qed

subsection \<open>C6: a failed load changes nothing and reports nothing\<close>

text \<open>
  Claim C6, as the code has it. When the response to a load carries an error, or no
  data, \<^verbatim>\<open>loadUnreadNotifications\<close> changes nothing at all: the queue, the dialog and the
  console are as before (the component has no statement that writes a diagnostic), and
  the only effect of the event is that one request is no longer pending.
\<close>

theorem failed_load_is_silent:
  "error r \<noteq> None \<or> data r = None \<Longrightarrow>
     loadUnreadNotifications_resume r w = w \<and>
     (\<not> deps_changed w \<longrightarrow>
        step (LoadResolved r) w = w\<lparr>pending_loads := pending_loads w - 1\<rparr>)"
  by (auto simp: step_def flush_effects_def loadUnreadNotifications_resume_def
      split: option.splits)

theorem failed_load_is_silent_witness:
  "error failed_response \<noteq> None \<and> \<not> deps_changed (mount ''u'' 0) \<and>
   loadUnreadNotifications_resume failed_response (mount ''u'' 0) = mount ''u'' 0 \<and>
   step (LoadResolved failed_response) (mount ''u'' 0) =
     (mount ''u'' 0)\<lparr>pending_loads := pending_loads (mount ''u'' 0) - 1\<rparr>"
proof -
  have h: "error failed_response \<noteq> None" by (simp add: failed_response_def)
  then have h': "error failed_response \<noteq> None \<or> data failed_response = None" by simp
  have d: "\<not> deps_changed (mount ''u'' 0)"
    using consistent_mount [of "''u''" 0] by (simp add: consistent_def)
  from h d failed_load_is_silent [OF h', of "mount ''u'' 0"] show ?thesis by blast
qed

text \<open>
  The claim as written asks for a recorded diagnostic. After a failed first load the
  queue is unchanged, and so is the console.
\<close>

theorem failed_load_diagnostic_counterexample:
  "\<not> (notifications (cells (step (LoadResolved failed_response) (mount ''u'' 0))) =
         notifications (cells (mount ''u'' 0)) \<and>
       console (step (LoadResolved failed_response) (mount ''u'' 0)) \<noteq> console (mount ''u'' 0))"
  by (simp add: step_def failed_response_def mount_defs component_defs)

subsection \<open>C7: one confetti animation for every presentation\<close>

text \<open>
  Claim C7, as the code has it. After every sequence of events, \<^verbatim>\<open>triggerConfetti\<close> has
  been called once for every presentation, and an event that takes the component from
  no dialog to a dialog starts exactly one interval. While a dialog is on screen,
  every event other than the completion of a \<^verbatim>\<open>handleClose\<close> (so also the response to a
  reload, whatever rows it carries) starts no interval, presents nothing and leaves the
  current notification in place. An event after which the same notification is
  current starts an interval only if it is the completion of a suspended
  \<^verbatim>\<open>handleClose\<close> that closed over a notification of another id.
\<close>

theorem confetti_once_per_presentation:
  "length (intervals (run es (mount uid now))) = length (presented (run es (mount uid now))) \<and>
   (\<not> showNotification (cells (run es (mount uid now))) \<longrightarrow>
    showNotification (cells (step e (run es (mount uid now)))) \<longrightarrow>
      length (intervals (step e (run es (mount uid now)))) =
        Suc (length (intervals (run es (mount uid now))))) \<and>
   (showNotification (cells (run es (mount uid now))) \<longrightarrow> (\<forall>i r. e \<noteq> RpcResolved i r) \<longrightarrow>
      presented (step e (run es (mount uid now))) = presented (run es (mount uid now)) \<and>
      length (intervals (step e (run es (mount uid now)))) =
        length (intervals (run es (mount uid now))) \<and>
      currentNotification (cells (step e (run es (mount uid now)))) =
        currentNotification (cells (run es (mount uid now))) \<and>
      showNotification (cells (step e (run es (mount uid now))))) \<and>
   (showNotification (cells (run es (mount uid now))) \<longrightarrow>
    currentNotification (cells (step e (run es (mount uid now)))) =
      currentNotification (cells (run es (mount uid now))) \<longrightarrow>
      length (intervals (step e (run es (mount uid now)))) =
        length (intervals (run es (mount uid now))) \<or>
      (\<exists>i r. e = RpcResolved i r \<and> i < length (pending_closes (run es (mount uid now))) \<and>
         map_option id' (currentNotification (pending_closes (run es (mount uid now)) ! i)) \<noteq>
           map_option id' (currentNotification (cells (run es (mount uid now))))))"
proof -
  note c = consistent_reachable [of es uid now]
  then have "length (intervals (run es (mount uid now))) =
      length (presented (run es (mount uid now)))"
    by (simp add: consistent_def)
  with showing_step [OF c, of e] idle_step [OF c, of e] same_item_step [OF c, of e]
  show ?thesis by blast
qed

theorem confetti_once_per_presentation_witness:
  "\<not> showNotification (cells (run [] (mount ''u'' 0))) \<and>
   showNotification (cells (step (loaded [notification_A, notification_B]) (run [] (mount ''u'' 0)))) \<and>
   length (intervals (step (loaded [notification_A, notification_B]) (run [] (mount ''u'' 0)))) =
     Suc (length (intervals (run [] (mount ''u'' 0)))) \<and>
   showNotification (cells reloading_A) \<and>
   pending_loads reloading_A = 1 \<and>
   notifications (cells (step (loaded [notification_A, notification_C]) reloading_A)) =
     [notification_A, notification_C] \<and>
   length (intervals (step (loaded [notification_A, notification_C]) reloading_A)) =
     length (intervals reloading_A) \<and>
   currentNotification (cells (step (loaded [notification_A, notification_C]) reloading_A)) =
     Some notification_A"
proof -
  have i1: "\<not> showNotification (cells (run [] (mount ''u'' 0)))"
    by (simp add: run_def mount_defs component_defs)
  have i2: "showNotification (cells (step (loaded [notification_A, notification_B])
      (run [] (mount ''u'' 0))))"
    using showing_A_world by (simp add: showing_A_def run_def showing_def)
  have s2: "\<forall>i r. loaded [notification_A, notification_C] \<noteq> RpcResolved i r"
    by (simp add: loaded_def)
  from confetti_once_per_presentation [of "[]" "''u''" 0 "loaded [notification_A, notification_B]"]
    i1 i2
  have a: "length (intervals (step (loaded [notification_A, notification_B]) (run [] (mount ''u'' 0)))) =
     Suc (length (intervals (run [] (mount ''u'' 0))))"
    by blast
  note t = confetti_once_per_presentation
    [of "[loaded [notification_A, notification_B], InsertEvent ''u'']" "''u''" 0
      "loaded [notification_A, notification_C]", folded reloading_A_def]
  from t reloading_A_world s2
  have b: "length (intervals (step (loaded [notification_A, notification_C]) reloading_A)) =
     length (intervals reloading_A)"
    by blast
  from i1 i2 a b reloading_A_world show ?thesis by blast
qed

text \<open>
  The claim as written asks that confetti is never triggered again while the same
  notification is shown. After two clicks on the first dialog and the completion of
  the first, the second notification is on screen; the completion of the second click
  hides it and stores a new array, the effect presents it again, and a third interval
  starts: the same notification is shown before and after.
\<close>

theorem stale_completion_retriggers_confetti_counterexample:
  "showNotification (cells double_clicked) \<and>
   currentNotification (cells double_clicked) = Some notification_B \<and>
   showNotification (cells (step (RpcResolved 0 RpcOk) double_clicked)) \<and>
   currentNotification (cells (step (RpcResolved 0 RpcOk) double_clicked)) = Some notification_B \<and>
   length (intervals double_clicked) = 2 \<and>
   length (intervals (step (RpcResolved 0 RpcOk) double_clicked)) = 3"
  using double_clicked_world by blast

subsection \<open>C8: the timers outlive the component\<close>

text \<open>
  Claim C8, as the code has it. No effect of the component returns a cleanup, so
  unmounting after any sequence of events changes nothing: every pending
  \<^verbatim>\<open>setTimeout\<close> callback and every interval is still there. A timeout that runs after
  the unmount is taken off the pending ones and changes neither the cells nor what was
  presented (the render it closes over had its dialog on screen, so its
  \<^verbatim>\<open>showNextNotification\<close> does nothing). An interval that runs after the unmount is
  cleared by its own callback, and only once its \<^verbatim>\<open>animationEnd\<close> has come.
\<close>

theorem timers_survive_unmount:
  "unmount (run es (mount uid now)) = run es (mount uid now) \<and>
   cells (step TimeoutFired (unmount (run es (mount uid now)))) = cells (run es (mount uid now)) \<and>
   presented (step TimeoutFired (unmount (run es (mount uid now)))) =
     presented (run es (mount uid now)) \<and>
   timeouts (step TimeoutFired (unmount (run es (mount uid now)))) =
     tl (timeouts (run es (mount uid now))) \<and>
   (\<forall>h < length (intervals (run es (mount uid now))).
      cleared (intervals (step (IntervalFired h) (unmount (run es (mount uid now)))) ! h) =
        (cleared (intervals (run es (mount uid now)) ! h) \<or>
         animationEnd (intervals (run es (mount uid now)) ! h) \<le> clock (run es (mount uid now))))"
proof -
  note c = consistent_reachable [of es uid now]
  show ?thesis
    using timeout_fired_reachable [OF c] interval_fired_cleared [OF c]
    by (simp add: reachable_unmount)
qed

theorem timers_survive_unmount_witness:
  "unmount dismissed_A = dismissed_A \<and>
   timeouts (unmount dismissed_A) = [showing [notification_A, notification_B] notification_A] \<and>
   timeouts (step TimeoutFired (unmount dismissed_A)) = [] \<and>
   cells (step TimeoutFired (unmount dismissed_A)) = cells dismissed_A \<and>
   0 < length (intervals dismissed_A) \<and>
   cleared (intervals (step (IntervalFired 0) (unmount dismissed_A)) ! 0) = False"
proof -
  note t = timers_survive_unmount
    [of "[loaded [notification_A, notification_B], Click, RpcResolved 0 RpcOk]" "''u''" 0,
     folded dismissed_A_def]
  have l: "0 < length (intervals dismissed_A)"
    using dismissed_A_world by simp
  from t l have "cleared (intervals (step (IntervalFired 0) (unmount dismissed_A)) ! 0) =
        (cleared (intervals dismissed_A ! 0) \<or>
         animationEnd (intervals dismissed_A ! 0) \<le> clock dismissed_A)"
    by blast
  then have i: "cleared (intervals (step (IntervalFired 0) (unmount dismissed_A)) ! 0) = False"
    using dismissed_A_world by simp
  from t have u: "unmount dismissed_A = dismissed_A" by blast
  from t have f: "timeouts (step TimeoutFired (unmount dismissed_A)) = tl (timeouts dismissed_A)"
    by blast
  from t have g: "cells (step TimeoutFired (unmount dismissed_A)) = cells dismissed_A"
    by blast
  show ?thesis using u f g l i dismissed_A_world by simp
qed

text \<open>
  The claim as written asks that no timer is pending and none runs after the unmount.
  After the user closed the first dialog and the component unmounted, the timeout is
  pending, and the first interval, run once, calls \<^verbatim>\<open>confetti\<close>.
\<close>

theorem timers_cancelled_on_unmount_counterexample:
  "\<not> (timeouts (unmount dismissed_A) = [] \<and>
       confetti_calls (step (IntervalFired 0) (unmount dismissed_A)) =
         confetti_calls (unmount dismissed_A))"
proof -
  have u: "unmount dismissed_A = dismissed_A"
    using dismissed_A_world by (simp add: unmount_def)
  show ?thesis using dismissed_A_world by (simp add: u)
qed

subsection \<open>C9: the subscription outlives the component\<close>

text \<open>
  Claim C9 asks that the channel is unsubscribed when the component unmounts and that
  its callback never runs afterwards. The code does not do so: the cleanup that
  \<^verbatim>\<open>subscribeToNotifications\<close> returns is dropped by the effect. After mounting for the
  user \<^verbatim>\<open>u\<close> and unmounting, the channel is still subscribed, and an insert for \<^verbatim>\<open>u\<close>
  runs the callback, which sends one more query. Had the effect returned the cleanup,
  the unmount would have unsubscribed the channel.
\<close>

theorem subscription_survives_unmount:
  "subscriptions (unmount (mount ''u'' 0)) = [\<lparr>filter_user_id = ''u'', subscribed = True\<rparr>] \<and>
   pending_loads (unmount (mount ''u'' 0)) = 1 \<and>
   pending_loads (step (InsertEvent ''u'') (unmount (mount ''u'' 0))) = 2 \<and>
   subscriptions (unmount (register (Some (snd (subscribeToNotifications (initial ''u'' 0))))
       (fst (subscribeToNotifications (initial ''u'' 0))))) =
     [\<lparr>filter_user_id = ''u'', subscribed = False\<rparr>]"
  by (simp add: unmount_def step_def insert_event_def mount_defs component_defs)

subsection \<open>C10: closing when nothing is shown does nothing\<close>

text \<open>
  Claim C10. \<^verbatim>\<open>handleClose\<close> of a render without a current notification returns the
  world it was given: no remote call is issued, nothing is suspended that could resume
  later, the cells are unchanged and no timer is set.
\<close>

theorem handleClose_nothing_shown:
  "currentNotification c = None \<Longrightarrow>
     handleClose_call c w = w \<and>
     rpc_calls (handleClose_call c w) = rpc_calls w \<and>
     pending_closes (handleClose_call c w) = pending_closes w \<and>
     cells (handleClose_call c w) = cells w \<and>
     timeouts (handleClose_call c w) = timeouts w"
  by (simp add: handleClose_call_def)

theorem handleClose_nothing_shown_witness:
  "currentNotification (cells (mount ''u'' 0)) = None \<and>
   handleClose_call (cells (mount ''u'' 0)) (mount ''u'' 0) = mount ''u'' 0"
proof -
  have h: "currentNotification (cells (mount ''u'' 0)) = None"
    by (simp add: mount_defs component_defs)
  from h handleClose_nothing_shown [OF h, of "mount ''u'' 0"] show ?thesis by blast
qed

end
